theory Spec2Isabelle
  imports Complex_Main "HOL-Library.Word"
begin

unbundle bit_operations_syntax

section \<open>Floating-point values\<close>

text \<open>
  The C++ type \<^verbatim>\<open>double\<close> is modelled as either the not-a-number value or a real
  number. Every comparison the program makes on doubles is exact on such values; the
  rounding of the additions on sizes and the two infinities are not modelled.
  The comparison operators follow IEEE 754: each of them is false as soon as one
  operand is not-a-number.
\<close>

datatype double = NaN | Fin real

fun isnan :: "double \<Rightarrow> bool" where
  "isnan NaN = True"
| "isnan (Fin x) = False"

fun dless :: "double \<Rightarrow> double \<Rightarrow> bool" where
  "dless (Fin x) (Fin y) = (x < y)"
| "dless a b = False"

fun dgreater :: "double \<Rightarrow> double \<Rightarrow> bool" where
  "dgreater (Fin x) (Fin y) = (x > y)"
| "dgreater a b = False"

fun deq :: "double \<Rightarrow> double \<Rightarrow> bool" where
  "deq (Fin x) (Fin y) = (x = y)"
| "deq a b = False"

fun dadd :: "double \<Rightarrow> double \<Rightarrow> double" where
  "dadd (Fin x) (Fin y) = Fin (x + y)"
| "dadd a b = NaN"

fun dneg :: "double \<Rightarrow> double" where
  "dneg (Fin x) = Fin (- x)"
| "dneg NaN = NaN"

fun dabs :: "double \<Rightarrow> double" where
  "dabs (Fin x) = Fin \<bar>x\<bar>"
| "dabs NaN = NaN"

text \<open>\<^verbatim>\<open>std::numeric_limits<double>::epsilon()\<close>, that is \<open>2\<^sup>-\<^sup>5\<^sup>2\<close>.\<close>

definition epsilon :: double where
  "epsilon = Fin (1 / 2 ^ 52)"

section \<open>Price levels and the three comparators\<close>

record PriceLevel =
  price :: double
  psize :: double
  ptime :: int

text \<open>\<^verbatim>\<open>PriceLevel::isValid\<close> returns \<^verbatim>\<open>std::isnan(price)\<close>.\<close>

definition isValid :: "PriceLevel \<Rightarrow> bool" where
  "isValid pl = isnan (price pl)"

text \<open>\<^verbatim>\<open>operator<\<close> of \<^verbatim>\<open>PriceLevel\<close>, \<^verbatim>\<open>AskPriceLevel\<close> and \<^verbatim>\<open>BidPriceLevel\<close>.\<close>

definition pl_less :: "PriceLevel \<Rightarrow> PriceLevel \<Rightarrow> bool" where
  "pl_less a b =
     (if isnan (price b) then True
      else if isnan (price a) then False
      else dless (price a) (price b))"

definition ask_less :: "PriceLevel \<Rightarrow> PriceLevel \<Rightarrow> bool" where
  "ask_less a b =
     (if isnan (price b) then True
      else if isnan (price a) then False
      else dless (price a) (price b))"

definition bid_less :: "PriceLevel \<Rightarrow> PriceLevel \<Rightarrow> bool" where
  "bid_less a b =
     (if isnan (price b) then False
      else if isnan (price a) then True
      else dgreater (price a) (price b))"

section \<open>Ordered sets\<close>

text \<open>
  A \<^verbatim>\<open>std::set\<close> is modelled by the list of its elements in iteration order, and its
  operations by a scan of that list with the set's comparator \<open>lt\<close>. An iterator is the
  position of an element, or the past-the-end iterator. Two keys are equivalent when
  neither is less than the other.

  \<^verbatim>\<open>find\<close> returns the first element that is not less than the key, unless the key is
  less than it. \<^verbatim>\<open>insert\<close> places the new element before the first element it is less
  than, and inserts nothing when it meets an equivalent element first.

  With a not-a-number price \<^const>\<open>pl_less\<close> and \<^const>\<open>ask_less\<close> are not strict weak
  orders: such a level is less than itself, so it is equivalent to no element, is never
  found and is inserted again each time. The scans below give the results of the
  searches of the tree on the sequences these comparators build: real prices in the
  order of the side, with the levels without price after them for \<^const>\<open>pl_less\<close> and
  \<^const>\<open>ask_less\<close>, and at most one such level before them for \<^const>\<open>bid_less\<close>.
\<close>

datatype iter = End | Pos nat

fun iter_suc :: "iter \<Rightarrow> iter" where
  "iter_suc End = End"
| "iter_suc (Pos i) = Pos (Suc i)"

fun set_find :: "('a \<Rightarrow> 'a \<Rightarrow> bool) \<Rightarrow> 'a \<Rightarrow> 'a list \<Rightarrow> iter" where
  "set_find lt k [] = End"
| "set_find lt k (e # es) =
     (if lt e k then iter_suc (set_find lt k es)
      else if lt k e then End
      else Pos 0)"

fun set_insert :: "('a \<Rightarrow> 'a \<Rightarrow> bool) \<Rightarrow> 'a \<Rightarrow> 'a list \<Rightarrow> 'a list" where
  "set_insert lt x [] = [x]"
| "set_insert lt x (e # es) =
     (if lt x e then x # e # es
      else if lt e x then e # set_insert lt x es
      else e # es)"

definition erase_at :: "nat \<Rightarrow> 'a list \<Rightarrow> 'a list" where
  "erase_at i xs = take i xs @ drop (Suc i) xs"

text \<open>\<^verbatim>\<open>erase(key)\<close> and \<^verbatim>\<open>count(key)\<close>.\<close>

definition set_erase_key :: "('a \<Rightarrow> 'a \<Rightarrow> bool) \<Rightarrow> 'a \<Rightarrow> 'a list \<Rightarrow> 'a list" where
  "set_erase_key lt k xs = (case set_find lt k xs of End \<Rightarrow> xs | Pos i \<Rightarrow> erase_at i xs)"

definition set_count :: "('a \<Rightarrow> 'a \<Rightarrow> bool) \<Rightarrow> 'a \<Rightarrow> 'a list \<Rightarrow> nat" where
  "set_count lt k xs = (case set_find lt k xs of End \<Rightarrow> 0 | Pos i \<Rightarrow> 1)"

section \<open>Orders and the order ledger\<close>

text \<open>
  Modelled from the spec: the types \<^verbatim>\<open>dxf_order_side_t\<close> and \<^verbatim>\<open>dxf_order_t\<close> and the
  constant \<^verbatim>\<open>dxf_ef_remove_event\<close> are declared in the header of the feed library, which
  is not among the files of the repository. A raw order record has an identifier, a
  price, a size, a side (buy, sell or undefined), a timestamp and event flags with a
  removal flag; the record below has the fields that the book reads. The removal flag is
  the bit \<^verbatim>\<open>0x02\<close> of the flags in that header.
\<close>

datatype dxf_order_side_t = dxf_osd_undefined | dxf_osd_buy | dxf_osd_sell

record dxf_order_t =
  o_index :: int
  o_price :: double
  o_size :: double
  o_time :: int
  o_side :: dxf_order_side_t
  o_event_flags :: "32 word"

definition dxf_ef_remove_event :: "32 word" where
  "dxf_ef_remove_event = 2"

record OrderData =
  od_index :: int
  od_price :: double
  od_size :: double
  od_time :: int
  od_side :: dxf_order_side_t

type_synonym ledger = "int \<rightharpoonup> OrderData"

section \<open>The delta translator\<close>

text \<open>The two sets of net deltas that \<^verbatim>\<open>convertToUpdates\<close> builds, both ordered by \<^const>\<open>pl_less\<close>.\<close>

record Updates =
  askUpdates :: "PriceLevel list"
  bidUpdates :: "PriceLevel list"

definition isZeroPriceLevel :: "PriceLevel \<Rightarrow> bool" where
  "isZeroPriceLevel pl = dless (dabs (psize pl)) epsilon"

definition isOrderRemoval :: "dxf_order_t \<Rightarrow> bool" where
  "isOrderRemoval ord =
     ((o_event_flags ord AND dxf_ef_remove_event) \<noteq> 0
      \<or> deq (o_size ord) (Fin 0) \<or> isnan (o_size ord))"

text \<open>
  What the two lambdas do to the set \<^verbatim>\<open>updatesSide\<close> they have selected: the change is
  added to the level found at its price, which is erased, and the sum is inserted; the
  removal lambda does not insert a sum that is a zero level.
\<close>

definition netAddition :: "PriceLevel \<Rightarrow> PriceLevel list \<Rightarrow> PriceLevel list" where
  "netAddition change updatesSide =
     (case set_find pl_less change updatesSide of
        End \<Rightarrow> set_insert pl_less change updatesSide
      | Pos i \<Rightarrow>
          set_insert pl_less
            (change\<lparr>psize := dadd (psize (updatesSide ! i)) (psize change)\<rparr>)
            (erase_at i updatesSide))"

definition netRemoval :: "PriceLevel \<Rightarrow> PriceLevel list \<Rightarrow> PriceLevel list" where
  "netRemoval change updatesSide =
     (case set_find pl_less change updatesSide of
        End \<Rightarrow>
          if \<not> isZeroPriceLevel change then set_insert pl_less change updatesSide
          else updatesSide
      | Pos i \<Rightarrow>
          (let change' = change\<lparr>psize := dadd (psize (updatesSide ! i)) (psize change)\<rparr>;
               erased = erase_at i updatesSide
           in if \<not> isZeroPriceLevel change' then set_insert pl_less change' erased
              else erased))"

definition processOrderAddition :: "dxf_order_t \<Rightarrow> Updates \<Rightarrow> Updates" where
  "processOrderAddition ord u =
     (let priceLevelChange = \<lparr>price = o_price ord, psize = o_size ord, ptime = o_time ord\<rparr>
      in if o_side ord = dxf_osd_buy
         then u\<lparr>bidUpdates := netAddition priceLevelChange (bidUpdates u)\<rparr>
         else u\<lparr>askUpdates := netAddition priceLevelChange (askUpdates u)\<rparr>)"

definition processOrderRemoval :: "dxf_order_t \<Rightarrow> OrderData \<Rightarrow> Updates \<Rightarrow> Updates" where
  "processOrderRemoval ord foundOrderData u =
     (let priceLevelChange =
            \<lparr>price = od_price foundOrderData, psize = dneg (od_size foundOrderData),
             ptime = o_time ord\<rparr>
      in if od_side foundOrderData = dxf_osd_buy
         then u\<lparr>bidUpdates := netRemoval priceLevelChange (bidUpdates u)\<rparr>
         else u\<lparr>askUpdates := netRemoval priceLevelChange (askUpdates u)\<rparr>)"

definition toOrderData :: "dxf_order_t \<Rightarrow> OrderData" where
  "toOrderData ord =
     \<lparr>od_index = o_index ord, od_price = o_price ord, od_size = o_size ord,
      od_time = o_time ord, od_side = o_side ord\<rparr>"

text \<open>The body of the loop over the records of a batch.\<close>

definition processOrder :: "Updates \<times> ledger \<Rightarrow> dxf_order_t \<Rightarrow> Updates \<times> ledger" where
  "processOrder st ord =
     (let u = fst st; led = snd st; removal = isOrderRemoval ord
      in case led (o_index ord) of
           None \<Rightarrow>
             if removal then (u, led)
             else (processOrderAddition ord u, led(o_index ord \<mapsto> toOrderData ord))
         | Some foundOrderData \<Rightarrow>
             if removal
             then (processOrderRemoval ord foundOrderData u,
                   led(od_index foundOrderData := None))
             else (processOrderAddition ord
                     (if o_side ord \<noteq> od_side foundOrderData
                      then processOrderRemoval ord foundOrderData u else u),
                   led(od_index foundOrderData \<mapsto> toOrderData ord)))"

section \<open>Undefined behaviour as a fault\<close>

text \<open>
  Reading through the past-the-end iterator, advancing it and erasing at it are undefined
  in C++; so is any use of an iterator whose element is gone. The model makes each of
  them a fault that ends the call, and a failed \<^verbatim>\<open>assert\<close> likewise.
\<close>

datatype fault = DerefEnd | AdvanceEnd | EraseEnd | InvalidIterator | AssertionFailed

fun bindE :: "fault + 'a \<Rightarrow> ('a \<Rightarrow> fault + 'b) \<Rightarrow> fault + 'b" where
  "bindE (Inl e) f = Inl e"
| "bindE (Inr x) f = f x"

fun foldE :: "('a \<Rightarrow> 's \<Rightarrow> fault + 's) \<Rightarrow> 'a list \<Rightarrow> 's \<Rightarrow> fault + 's" where
  "foldE f [] s = Inr s"
| "foldE f (x # xs) s = bindE (f x s) (foldE f xs)"

definition deref :: "'a list \<Rightarrow> iter \<Rightarrow> fault + 'a" where
  "deref xs it =
     (case it of
        End \<Rightarrow> Inl DerefEnd
      | Pos i \<Rightarrow> if i < length xs then Inr (xs ! i) else Inl InvalidIterator)"

text \<open>\<^verbatim>\<open>std::next\<close>, \<^verbatim>\<open>std::prev\<close>, \<^verbatim>\<open>begin()\<close> and \<^verbatim>\<open>erase(iterator)\<close>.\<close>

definition iter_next :: "'a list \<Rightarrow> iter \<Rightarrow> fault + iter" where
  "iter_next xs it =
     (case it of
        End \<Rightarrow> Inl AdvanceEnd
      | Pos i \<Rightarrow>
          if Suc i < length xs then Inr (Pos (Suc i))
          else if Suc i = length xs then Inr End
          else Inl InvalidIterator)"

definition iter_prev :: "'a list \<Rightarrow> iter \<Rightarrow> fault + iter" where
  "iter_prev xs it =
     (case it of
        End \<Rightarrow> if xs = [] then Inl InvalidIterator else Inr (Pos (length xs - 1))
      | Pos i \<Rightarrow> if 0 < i \<and> i < length xs then Inr (Pos (i - 1)) else Inl InvalidIterator)"

definition set_begin :: "'a list \<Rightarrow> iter" where
  "set_begin xs = (if xs = [] then End else Pos 0)"

definition erase_iter :: "iter \<Rightarrow> 'a list \<Rightarrow> fault + 'a list" where
  "erase_iter it xs =
     (case it of
        End \<Rightarrow> Inl EraseEnd
      | Pos i \<Rightarrow> if i < length xs then Inr (erase_at i xs) else Inl InvalidIterator)"

section \<open>The bounded level store\<close>

text \<open>
  The arguments that the three \<^verbatim>\<open>processSide...\<close> templates take by reference: the
  level store of one side, its cursor, and the three sets of changes of that side which
  \<^verbatim>\<open>applyUpdates\<close> collects during one cycle.
\<close>

record SideState =
  storageSide :: "PriceLevel list"
  lastElementIter :: iter
  additionsSet :: "PriceLevel list"
  removalsSet :: "PriceLevel list"
  updatesSet :: "PriceLevel list"

text \<open>A value-initialised level: \<^verbatim>\<open>{NaN, NaN, 0}\<close>.\<close>

definition defaultPriceLevel :: PriceLevel where
  "defaultPriceLevel = \<lparr>price = NaN, psize = NaN, ptime = 0\<rparr>"

text \<open>
  The closing lines of the three templates: \<^verbatim>\<open>if (!newLastPL.isValid())\<close> the cursor becomes
  \<^verbatim>\<open>end()\<close>, otherwise \<^verbatim>\<open>find(newLastPL)\<close>.
\<close>

definition relocate :: "(PriceLevel \<Rightarrow> PriceLevel \<Rightarrow> bool) \<Rightarrow> PriceLevel \<Rightarrow> PriceLevel list \<Rightarrow> iter" where
  "relocate lt newLastPL storage =
     (if \<not> isValid newLastPL then End else set_find lt newLastPL storage)"

definition processSideRemoval ::
  "(PriceLevel \<Rightarrow> PriceLevel \<Rightarrow> bool) \<Rightarrow> PriceLevel \<Rightarrow> nat \<Rightarrow> SideState \<Rightarrow> fault + SideState" where
  "processSideRemoval lt removal levelsNumber s =
     (let storage = storageSide s; cursor = lastElementIter s
      in if storage = [] then Inr s
         else
           let found = set_find lt removal storage
           in if levelsNumber = 0
              then bindE (erase_iter found storage) (\<lambda>storage'.
                     Inr (s\<lparr>removalsSet := set_insert lt removal (removalsSet s),
                            storageSide := storage', lastElementIter := End\<rparr>))
              else
                bindE (if length storage \<le> levelsNumber then Inr True
                       else bindE (iter_next storage cursor) (\<lambda>n.
                            bindE (deref storage n) (\<lambda>nextPL. Inr (lt removal nextPL))))
                  (\<lambda>removed.
                bindE (if removed \<and> length storage > levelsNumber
                       then bindE (iter_next storage cursor) (\<lambda>n.
                            bindE (deref storage n) (\<lambda>nextPL.
                              Inr (set_insert lt nextPL (additionsSet s))))
                       else Inr (additionsSet s))
                  (\<lambda>additions'.
                bindE (if removed
                       then bindE (iter_next storage cursor) (\<lambda>n.
                              if n \<noteq> End then deref storage n
                              else bindE (deref storage cursor) (\<lambda>lastPL.
                                if lt removal lastPL then Inr lastPL
                                else if cursor \<noteq> set_begin storage
                                then bindE (iter_prev storage cursor) (deref storage)
                                else Inr defaultPriceLevel))
                       else deref storage cursor)
                  (\<lambda>newLastPL.
                bindE (erase_iter found storage) (\<lambda>storage'.
                  Inr (s\<lparr>removalsSet :=
                           (if removed then set_insert lt removal (removalsSet s)
                            else removalsSet s),
                         additionsSet := additions',
                         storageSide := storage',
                         lastElementIter := relocate lt newLastPL storage'\<rparr>))))))"

definition processSideAddition ::
  "(PriceLevel \<Rightarrow> PriceLevel \<Rightarrow> bool) \<Rightarrow> PriceLevel \<Rightarrow> nat \<Rightarrow> SideState \<Rightarrow> fault + SideState" where
  "processSideAddition lt addition levelsNumber s =
     (let storage = storageSide s; cursor = lastElementIter s
      in if levelsNumber = 0
         then Inr (s\<lparr>additionsSet := set_insert lt addition (additionsSet s),
                     storageSide := set_insert lt addition storage,
                     lastElementIter := End\<rparr>)
         else
           bindE (if length storage < levelsNumber then Inr True
                  else bindE (deref storage cursor) (\<lambda>lastPL. Inr (lt addition lastPL)))
             (\<lambda>added.
           let additions1 =
                 (if added then set_insert lt addition (additionsSet s) else additionsSet s)
           in
           bindE (if added \<and> length storage \<ge> levelsNumber
                  then bindE (deref storage cursor) (\<lambda>toRemove.
                         if set_count lt toRemove additions1 > 0
                         then Inr (set_erase_key lt toRemove additions1, removalsSet s)
                         else Inr (additions1, set_insert lt toRemove (removalsSet s)))
                  else Inr (additions1, removalsSet s))
             (\<lambda>(additions', removals').
           bindE (deref storage cursor) (\<lambda>lastPL.
           bindE (if added
                  then if cursor \<noteq> End \<and> lt addition lastPL
                       then if length storage < levelsNumber then Inr lastPL
                            else if cursor \<noteq> set_begin storage
                            then bindE (iter_prev storage cursor) (\<lambda>p.
                                 bindE (deref storage p) (\<lambda>prevPL.
                                   Inr (if lt addition prevPL then prevPL else addition)))
                            else Inr addition
                       else Inr addition
                  else Inr lastPL)
             (\<lambda>newLastPL.
           let storage' = set_insert lt addition storage
           in Inr (s\<lparr>additionsSet := additions', removalsSet := removals',
                     storageSide := storage',
                     lastElementIter := relocate lt newLastPL storage'\<rparr>))))))"

definition processSideUpdate ::
  "(PriceLevel \<Rightarrow> PriceLevel \<Rightarrow> bool) \<Rightarrow> PriceLevel \<Rightarrow> nat \<Rightarrow> SideState \<Rightarrow> fault + SideState" where
  "processSideUpdate lt update levelsNumber s =
     (let storage = storageSide s; cursor = lastElementIter s;
          storage' = set_insert lt update (set_erase_key lt update storage)
      in if levelsNumber = 0
         then Inr (s\<lparr>storageSide := storage',
                     updatesSet := set_insert lt update (updatesSet s),
                     lastElementIter := End\<rparr>)
         else
           bindE (if cursor \<noteq> End then deref storage cursor else Inr defaultPriceLevel)
             (\<lambda>newLastPL.
           Inr (s\<lparr>updatesSet :=
                    (if set_count lt update storage > 0
                     then set_insert lt update (updatesSet s) else updatesSet s),
                  storageSide := storage',
                  lastElementIter := relocate lt newLastPL storage'\<rparr>)))"

section \<open>The book\<close>

record PriceLevelChanges =
  asks :: "PriceLevel list"
  bids :: "PriceLevel list"

record PriceLevelChangesSet =
  additions :: PriceLevelChanges
  updates :: PriceLevelChanges
  removals :: PriceLevelChanges

text \<open>
  The state of a \<^verbatim>\<open>PriceLevelBook\<close>: the members \<^verbatim>\<open>levelsNumber_\<close>, \<^verbatim>\<open>asks_\<close>,
  \<^verbatim>\<open>lastAsk_\<close>, \<^verbatim>\<open>bids_\<close>, \<^verbatim>\<open>lastBid_\<close> and \<^verbatim>\<open>orderDataSnapshot_\<close>, and for each of the
  three observers whether a handler is set. The mutex and the trace printed for each
  order are left out.
\<close>

record PriceLevelBook =
  levelsNumber :: nat
  book_asks :: "PriceLevel list"
  lastAsk :: iter
  book_bids :: "PriceLevel list"
  lastBid :: iter
  orderDataSnapshot :: ledger
  onNewBook :: bool
  onBookUpdate :: bool
  onIncrementalChange :: bool

text \<open>
  Modelled from the spec: \<^verbatim>\<open>dxf_snapshot_data_t\<close> and \<^verbatim>\<open>dx_eid_order\<close> are declared in
  the header of the feed library too. A batch is the event type of its records and the
  records, \<^verbatim>\<open>records_count\<close> being the length of the list; \<^verbatim>\<open>dx_eid_order\<close> is 4 in
  that header.
\<close>

record dxf_snapshot_data =
  event_type :: int
  records :: "dxf_order_t list"

definition dx_eid_order :: int where
  "dx_eid_order = 4"

definition convertToUpdates ::
  "dxf_snapshot_data \<Rightarrow> PriceLevelBook \<Rightarrow> fault + (PriceLevelBook \<times> PriceLevelChanges)" where
  "convertToUpdates snapshotData b =
     (if records snapshotData = [] \<or> event_type snapshotData = dx_eid_order
      then Inl AssertionFailed
      else
        let r = foldl processOrder
                  (\<lparr>askUpdates = [], bidUpdates = []\<rparr>, orderDataSnapshot b)
                  (records snapshotData)
        in Inr (b\<lparr>orderDataSnapshot := snd r\<rparr>,
                \<lparr>asks = askUpdates (fst r), bids = rev (bidUpdates (fst r))\<rparr>))"

text \<open>The three vectors of one side that \<^verbatim>\<open>generatePriceLevelChanges\<close> appends to.\<close>

record ChangeLists =
  additionsList :: "PriceLevel list"
  removalsList :: "PriceLevel list"
  updatesList :: "PriceLevel list"

definition generatePriceLevelChanges ::
  "(PriceLevel \<Rightarrow> PriceLevel \<Rightarrow> bool) \<Rightarrow> PriceLevel list \<Rightarrow> ChangeLists \<Rightarrow> PriceLevel \<Rightarrow> ChangeLists" where
  "generatePriceLevelChanges lt storage c update =
     (case set_find lt update storage of
        End \<Rightarrow> c\<lparr>additionsList := additionsList c @ [update]\<rparr>
      | Pos i \<Rightarrow>
          (let found = storage ! i;
               newPriceLevelChange =
                 found\<lparr>psize := dadd (psize found) (psize update), ptime := ptime update\<rparr>
           in if isZeroPriceLevel newPriceLevelChange
              then c\<lparr>removalsList := removalsList c @ [found]\<rparr>
              else c\<lparr>updatesList := updatesList c @ [newPriceLevelChange]\<rparr>))"

text \<open>
  One side of \<^verbatim>\<open>applyUpdates\<close>: the lists are generated against the store as it is
  before the cycle, then the removals, the additions and the updates are applied in
  that order. The source generates the lists of both sides before it applies any; the
  two sides share nothing, so each side is taken as a whole here.
\<close>

definition applySide ::
  "(PriceLevel \<Rightarrow> PriceLevel \<Rightarrow> bool) \<Rightarrow> nat \<Rightarrow> PriceLevel list \<Rightarrow> PriceLevel list \<Rightarrow> iter
     \<Rightarrow> fault + SideState" where
  "applySide lt n sideUpdates storage cursor =
     (let c = foldl (generatePriceLevelChanges lt storage)
                \<lparr>additionsList = [], removalsList = [], updatesList = []\<rparr> sideUpdates;
          s0 = \<lparr>storageSide = storage, lastElementIter = cursor,
                additionsSet = [], removalsSet = [], updatesSet = []\<rparr>
      in bindE (foldE (\<lambda>r. processSideRemoval lt r n) (removalsList c) s0) (\<lambda>s1.
         bindE (foldE (\<lambda>a. processSideAddition lt a n) (additionsList c) s1) (\<lambda>s2.
         foldE (\<lambda>u. processSideUpdate lt u n) (updatesList c) s2)))"

definition applyUpdates ::
  "PriceLevelChanges \<Rightarrow> PriceLevelBook \<Rightarrow> fault + (PriceLevelBook \<times> PriceLevelChangesSet)" where
  "applyUpdates priceLevelUpdates b =
     bindE (applySide ask_less (levelsNumber b) (asks priceLevelUpdates)
              (book_asks b) (lastAsk b)) (\<lambda>a.
     bindE (applySide bid_less (levelsNumber b) (bids priceLevelUpdates)
              (book_bids b) (lastBid b)) (\<lambda>d.
     Inr (b\<lparr>book_asks := storageSide a, lastAsk := lastElementIter a,
            book_bids := storageSide d, lastBid := lastElementIter d\<rparr>,
          \<lparr>additions = \<lparr>asks = additionsSet a, bids = additionsSet d\<rparr>,
           updates = \<lparr>asks = updatesSet a, bids = updatesSet d\<rparr>,
           removals = \<lparr>asks = removalsSet a, bids = removalsSet d\<rparr>\<rparr>)))"

text \<open>\<^verbatim>\<open>getAsks\<close> and \<^verbatim>\<open>getBids\<close> copy the range from \<^verbatim>\<open>begin()\<close> up to the cursor.\<close>

definition visibleRange :: "PriceLevel list \<Rightarrow> iter \<Rightarrow> fault + PriceLevel list" where
  "visibleRange storage cursor =
     (case cursor of
        End \<Rightarrow> Inr storage
      | Pos i \<Rightarrow> if i < length storage then Inr (take i storage) else Inl InvalidIterator)"

definition getAsks :: "PriceLevelBook \<Rightarrow> fault + PriceLevel list" where
  "getAsks b = visibleRange (book_asks b) (lastAsk b)"

definition getBids :: "PriceLevelBook \<Rightarrow> fault + PriceLevel list" where
  "getBids b = visibleRange (book_bids b) (lastBid b)"

definition visibleBook :: "PriceLevelBook \<Rightarrow> fault + PriceLevelChanges" where
  "visibleBook b =
     bindE (getAsks b) (\<lambda>a. bindE (getBids b) (\<lambda>d. Inr \<lparr>asks = a, bids = d\<rparr>))"

text \<open>The calls made to the observers, in the order they are made.\<close>

datatype notification =
    NewBook PriceLevelChanges
  | BookUpdate PriceLevelChanges
  | IncrementalChange PriceLevelChangesSet

text \<open>
  The constructor, and \<^verbatim>\<open>processSnapshotData\<close>: it returns the new state and the
  notifications. \<^verbatim>\<open>clear()\<close> empties a store and leaves its cursor as it is.
\<close>

definition create :: "nat \<Rightarrow> PriceLevelBook" where
  "create n =
     \<lparr>levelsNumber = n, book_asks = [], lastAsk = End, book_bids = [], lastBid = End,
      orderDataSnapshot = Map.empty,
      onNewBook = False, onBookUpdate = False, onIncrementalChange = False\<rparr>"

definition processSnapshotData ::
  "dxf_snapshot_data \<Rightarrow> int \<Rightarrow> PriceLevelBook \<Rightarrow> fault + (PriceLevelBook \<times> notification list)" where
  "processSnapshotData snapshotData newSnapshot b0 =
     (let newSnap = (newSnapshot \<noteq> 0);
          b = (if newSnap
               then b0\<lparr>book_asks := [], book_bids := [], orderDataSnapshot := Map.empty\<rparr>
               else b0)
      in if records snapshotData = []
         then Inr (b, if newSnap \<and> onNewBook b then [NewBook \<lparr>asks = [], bids = []\<rparr>] else [])
         else
           bindE (convertToUpdates snapshotData b) (\<lambda>(b1, priceLevelUpdates).
           bindE (applyUpdates priceLevelUpdates b1) (\<lambda>(b2, resultingChangesSet).
             if newSnap
             then if onNewBook b2
                  then bindE (visibleBook b2) (\<lambda>v. Inr (b2, [NewBook v]))
                  else Inr (b2, [])
             else
               bindE (if onBookUpdate b2
                      then bindE (visibleBook b2) (\<lambda>v. Inr [BookUpdate v])
                      else Inr [])
                 (\<lambda>upd.
               Inr (b2, (if onIncrementalChange b2
                         then [IncrementalChange resultingChangesSet] else []) @ upd)))))"

text \<open>A sequence of batches, each with its new-snapshot flag; the notifications are collected.\<close>

fun processAll ::
  "(dxf_snapshot_data \<times> int) list \<Rightarrow> PriceLevelBook \<Rightarrow> fault + (PriceLevelBook \<times> notification list)" where
  "processAll [] b = Inr (b, [])"
| "processAll (d # ds) b =
     bindE (processSnapshotData (fst d) (snd d) b) (\<lambda>(b1, ns1).
     bindE (processAll ds b1) (\<lambda>(b2, ns2). Inr (b2, ns1 @ ns2)))"

section \<open>Concrete inputs\<close>

text \<open>Shorthands for the states, orders, batches and levels at which the code is evaluated below.\<close>

definition emptySide :: "PriceLevel list \<Rightarrow> iter \<Rightarrow> SideState" where
  "emptySide storage cursor =
     \<lparr>storageSide = storage, lastElementIter = cursor,
      additionsSet = [], removalsSet = [], updatesSet = []\<rparr>"

definition order_event ::
  "int \<Rightarrow> real \<Rightarrow> real \<Rightarrow> int \<Rightarrow> dxf_order_side_t \<Rightarrow> 32 word \<Rightarrow> dxf_order_t" where
  "order_event i p s t sd fl =
     \<lparr>o_index = i, o_price = Fin p, o_size = Fin s, o_time = t, o_side = sd,
      o_event_flags = fl\<rparr>"

definition order_batch :: "dxf_order_t list \<Rightarrow> dxf_snapshot_data" where
  "order_batch rs = \<lparr>event_type = 16, records = rs\<rparr>"

definition level :: "real \<Rightarrow> real \<Rightarrow> int \<Rightarrow> PriceLevel" where
  "level p s t = \<lparr>price = Fin p, psize = Fin s, ptime = t\<rparr>"





section \<open>What the statements observe\<close>

text \<open>
  The states a book can be in: the constructor's, and those that the three setters and
  a completed call of \<^verbatim>\<open>processSnapshotData\<close> lead to.
\<close>

inductive reachable :: "PriceLevelBook \<Rightarrow> bool" where
  created: "reachable (create n)"
| setOnNewBook: "reachable b \<Longrightarrow> reachable (b\<lparr>onNewBook := h\<rparr>)"
| setOnBookUpdate: "reachable b \<Longrightarrow> reachable (b\<lparr>onBookUpdate := h\<rparr>)"
| setOnIncrementalChange: "reachable b \<Longrightarrow> reachable (b\<lparr>onIncrementalChange := h\<rparr>)"
| processed: "reachable b \<Longrightarrow> processSnapshotData d n b = Inr (b', ns) \<Longrightarrow> reachable b'"

text \<open>
  Two levels have the same real price when their prices compare equal as doubles, which
  no price does with a not-a-number price. A change-set keeps its lists apart when, on
  each side, no two of the three lists hold levels of the same real price.
\<close>

definition same_real_price :: "PriceLevel \<Rightarrow> PriceLevel \<Rightarrow> bool" where
  "same_real_price a b = deq (price a) (price b)"

definition disjoint_prices :: "PriceLevel list \<Rightarrow> PriceLevel list \<Rightarrow> bool" where
  "disjoint_prices xs ys = (\<forall>x\<in>set xs. \<forall>y\<in>set ys. \<not> same_real_price x y)"

definition one_list_per_price ::
  "PriceLevel list \<Rightarrow> PriceLevel list \<Rightarrow> PriceLevel list \<Rightarrow> bool" where
  "one_list_per_price a u r =
     (disjoint_prices a u \<and> disjoint_prices a r \<and> disjoint_prices u r)"

definition changes_disjoint :: "PriceLevelChangesSet \<Rightarrow> bool" where
  "changes_disjoint cs =
     (one_list_per_price (asks (additions cs)) (asks (updates cs)) (asks (removals cs))
      \<and> one_list_per_price (bids (additions cs)) (bids (updates cs)) (bids (removals cs)))"

text \<open>
  The set of deltas that the two lambdas select for a side, the size that a set of
  deltas holds at a price, the sum of a held size and a new delta, and that sum unless
  it is a zero level.
\<close>

definition updatesOf :: "dxf_order_side_t \<Rightarrow> Updates \<Rightarrow> PriceLevel list" where
  "updatesOf sd u = (if sd = dxf_osd_buy then bidUpdates u else askUpdates u)"

definition delta_at :: "PriceLevel list \<Rightarrow> double \<Rightarrow> double option" where
  "delta_at us k = map_option psize (find (\<lambda>l. price l = k) us)"

definition netted :: "double option \<Rightarrow> double \<Rightarrow> double" where
  "netted prev d = (case prev of None \<Rightarrow> d | Some s \<Rightarrow> dadd s d)"

definition nonzero :: "double \<Rightarrow> double option" where
  "nonzero d = (if dless (dabs d) epsilon then None else Some d)"

text \<open>The sets of deltas are kept in the order of \<^const>\<open>pl_less\<close>.\<close>

definition updates_sorted :: "Updates \<Rightarrow> bool" where
  "updates_sorted u = (sorted_wrt pl_less (askUpdates u) \<and> sorted_wrt pl_less (bidUpdates u))"

text \<open>
  Every reachable book has both cursors at the end, and holds no level when its cap is
  above zero: the first addition to the empty store of a capped book faults.
\<close>

definition book_inv :: "PriceLevelBook \<Rightarrow> bool" where
  "book_inv b =
     (lastAsk b = End \<and> lastBid b = End
      \<and> (0 < levelsNumber b \<longrightarrow> book_asks b = [] \<and> book_bids b = []))"

text \<open>Notions of the proofs: about a comparator, the generated lists and the sets of one side.\<close>

definition equiv_same_real_price :: "(PriceLevel \<Rightarrow> PriceLevel \<Rightarrow> bool) \<Rightarrow> bool" where
  "equiv_same_real_price lt = (\<forall>a b. \<not> lt a b \<and> \<not> lt b a \<longrightarrow> price a = price b)"

definition lists_from :: "ChangeLists \<Rightarrow> PriceLevel set \<Rightarrow> bool" where
  "lists_from c S =
     (\<forall>x \<in> set (additionsList c) \<union> set (removalsList c) \<union> set (updatesList c).
        \<exists>u\<in>S. price x = price u)"

definition lists_disjoint :: "ChangeLists \<Rightarrow> bool" where
  "lists_disjoint c = one_list_per_price (additionsList c) (updatesList c) (removalsList c)"

definition side_within :: "SideState \<Rightarrow> ChangeLists \<Rightarrow> bool" where
  "side_within s c =
     (set (additionsSet s) \<subseteq> set (additionsList c)
      \<and> set (removalsSet s) \<subseteq> set (removalsList c)
      \<and> set (updatesSet s) \<subseteq> set (updatesList c))"

definition sets_grow ::
  "SideState \<Rightarrow> SideState \<Rightarrow> PriceLevel set \<Rightarrow> PriceLevel set \<Rightarrow> PriceLevel set \<Rightarrow> bool" where
  "sets_grow s s' A R U =
     (set (additionsSet s') \<subseteq> set (additionsSet s) \<union> A
      \<and> set (removalsSet s') \<subseteq> set (removalsSet s) \<union> R
      \<and> set (updatesSet s') \<subseteq> set (updatesSet s) \<union> U
      \<and> (lastElementIter s = End \<longrightarrow> lastElementIter s' = End))"

section \<open>Evaluation\<close>

lemmas eval_defs = processSnapshotData_def convertToUpdates_def applyUpdates_def applySide_def
  generatePriceLevelChanges_def processSideRemoval_def processSideAddition_def processSideUpdate_def
  processOrder_def processOrderAddition_def processOrderRemoval_def netAddition_def netRemoval_def
  isOrderRemoval_def isZeroPriceLevel_def epsilon_def dxf_ef_remove_event_def dx_eid_order_def
  toOrderData_def create_def visibleBook_def getAsks_def getBids_def visibleRange_def
  relocate_def isValid_def deref_def iter_next_def iter_prev_def set_begin_def erase_iter_def
  erase_at_def set_erase_key_def set_count_def defaultPriceLevel_def
  pl_less_def ask_less_def bid_less_def order_event_def order_batch_def level_def emptySide_def

section \<open>Ordered sets and the sets of deltas\<close>

lemma set_set_insert: "set (set_insert lt x xs) \<subseteq> insert x (set xs)"
  by (induction xs) auto

lemma bindE_Inr: "bindE m f = Inr y \<Longrightarrow> \<exists>x. m = Inr x \<and> f x = Inr y"
  by (cases m) auto

lemma set_find_Pos:
  "set_find lt k xs = Pos i \<Longrightarrow> i < length xs \<and> \<not> lt (xs ! i) k \<and> \<not> lt k (xs ! i)"
proof (induction xs arbitrary: i)
  case Nil
  then show ?case by simp
next
  case (Cons e es)
  show ?case
  proof (cases "lt e k")
    case True
    with Cons.prems obtain j where j: "set_find lt k es = Pos j" "i = Suc j"
      by (cases "set_find lt k es") auto
    with Cons.IH[of j] show ?thesis by simp
  next
    case False
    with Cons.prems show ?thesis by (auto split: if_splits)
  qed
qed

lemma ask_equiv: "equiv_same_real_price ask_less"
  unfolding equiv_same_real_price_def ask_less_def
  by (intro allI impI) (metis dless.simps(1) double.exhaust isnan.simps linorder_neqE_linordered_idom)

lemma bid_equiv: "equiv_same_real_price bid_less"
  unfolding equiv_same_real_price_def bid_less_def
  by (intro allI impI) (metis dgreater.simps(1) double.exhaust isnan.simps linorder_neqE_linordered_idom)

lemma pl_less_trans: "pl_less a b \<Longrightarrow> pl_less b c \<Longrightarrow> pl_less a c"
  by (cases "price a"; cases "price b"; cases "price c") (auto simp: pl_less_def)

lemma pl_less_not_same: "pl_less a b \<Longrightarrow> \<not> same_real_price a b"
  by (cases "price a"; cases "price b") (auto simp: pl_less_def same_real_price_def)

lemma same_real_price_sym: "same_real_price a b = same_real_price b a"
  by (cases "price a"; cases "price b") (auto simp: same_real_price_def)

lemma sorted_set_insert:
  "sorted_wrt pl_less xs \<Longrightarrow> sorted_wrt pl_less (set_insert pl_less x xs)"
proof (induction xs)
  case Nil
  then show ?case by simp
next
  case (Cons e es)
  have sub: "set (set_insert pl_less x es) \<subseteq> insert x (set es)" by (rule set_set_insert)
  show ?case
  proof (cases "pl_less x e")
    case True
    with Cons.prems show ?thesis by (auto intro: pl_less_trans)
  next
    case False
    show ?thesis
    proof (cases "pl_less e x")
      case True
      with False Cons sub show ?thesis by auto
    next
      case F2: False
      with False Cons.prems show ?thesis by simp
    qed
  qed
qed

lemma sorted_erase_at: "sorted_wrt P xs \<Longrightarrow> sorted_wrt P (erase_at i xs)"
proof -
  assume s: "sorted_wrt P xs"
  have "sorted_wrt P (take i xs @ drop i xs)" using s by simp
  then have cross: "\<forall>x\<in>set (take i xs). \<forall>y\<in>set (drop i xs). P x y"
    unfolding sorted_wrt_append by blast
  have "set (drop (Suc i) xs) \<subseteq> set (drop i xs)" by (simp add: set_drop_subset_set_drop)
  with cross s show ?thesis
    unfolding erase_at_def sorted_wrt_append by auto
qed

lemma sorted_netAddition:
  "sorted_wrt pl_less us \<Longrightarrow> sorted_wrt pl_less (netAddition c us)"
  by (auto simp: netAddition_def sorted_set_insert sorted_erase_at split: iter.splits)

lemma sorted_netRemoval:
  "sorted_wrt pl_less us \<Longrightarrow> sorted_wrt pl_less (netRemoval c us)"
  by (auto simp: netRemoval_def Let_def sorted_set_insert sorted_erase_at split: iter.splits)

lemma sorted_processOrderAddition:
  "updates_sorted u \<Longrightarrow> updates_sorted (processOrderAddition ord u)"
  by (simp add: updates_sorted_def processOrderAddition_def Let_def sorted_netAddition)

lemma sorted_processOrderRemoval:
  "updates_sorted u \<Longrightarrow> updates_sorted (processOrderRemoval ord f u)"
  by (simp add: updates_sorted_def processOrderRemoval_def Let_def sorted_netRemoval)

lemma sorted_processOrder:
  "updates_sorted (fst st) \<Longrightarrow> updates_sorted (fst (processOrder st ord))"
  by (auto simp: processOrder_def Let_def sorted_processOrderAddition sorted_processOrderRemoval
      split: option.splits)

lemma sorted_foldl_processOrder:
  "updates_sorted (fst st) \<Longrightarrow> updates_sorted (fst (foldl processOrder st ords))"
  by (induction ords arbitrary: st) (auto simp: sorted_processOrder)

lemma find_absent: "\<forall>l\<in>set us. \<not> P l \<Longrightarrow> find P us = None"
  by (induction us) auto

lemma set_find_End_absent:
  "sorted_wrt pl_less us \<Longrightarrow> price c = Fin k \<Longrightarrow> set_find pl_less c us = End
   \<Longrightarrow> \<forall>l\<in>set us. price l \<noteq> Fin k"
proof (induction us)
  case Nil
  then show ?case by simp
next
  case (Cons e es)
  show ?case
  proof (cases "pl_less e c")
    case True
    with Cons.prems have "set_find pl_less c es = End"
      by (cases "set_find pl_less c es") auto
    with Cons have "\<forall>l\<in>set es. price l \<noteq> Fin k" by simp
    moreover from True Cons.prems(2) have "price e \<noteq> Fin k"
      by (cases "price e") (auto simp: pl_less_def)
    ultimately show ?thesis by simp
  next
    case False
    with Cons.prems have ce: "pl_less c e" by (auto split: if_splits)
    from Cons.prems(1) have later: "\<forall>l\<in>set es. pl_less e l" by simp
    have "price l \<noteq> Fin k" if "l \<in> set (e # es)" for l
    proof -
      from that later have "l = e \<or> pl_less e l" by auto
      with ce Cons.prems(2) show ?thesis
        by (cases "price e"; cases "price l") (auto simp: pl_less_def split: if_splits)
    qed
    then show ?thesis by blast
  qed
qed

lemma set_find_Pos_found:
  "price c = Fin k \<Longrightarrow> set_find pl_less c us = Pos i
   \<Longrightarrow> i < length us \<and> price (us ! i) = Fin k
       \<and> find (\<lambda>l. price l = Fin k) us = Some (us ! i)"
proof (induction us arbitrary: i)
  case Nil
  then show ?case by simp
next
  case (Cons e es)
  show ?case
  proof (cases "pl_less e c")
    case True
    with Cons.prems obtain j where j: "set_find pl_less c es = Pos j" "i = Suc j"
      by (cases "set_find pl_less c es") auto
    from True Cons.prems(1) have "price e \<noteq> Fin k"
      by (cases "price e") (auto simp: pl_less_def)
    with Cons.IH[OF Cons.prems(1) j(1)] j(2) show ?thesis by simp
  next
    case False
    with Cons.prems have i: "i = 0" and nce: "\<not> pl_less c e" by (auto split: if_splits)
    from False nce Cons.prems(1) have "price e = Fin k"
      by (cases "price e") (auto simp: pl_less_def split: if_splits)
    with i show ?thesis by simp
  qed
qed

lemma erased_price_absent:
  assumes "sorted_wrt pl_less us" and "i < length us" and "price (us ! i) = Fin k"
  shows "\<forall>l\<in>set (erase_at i us). price l \<noteq> Fin k"
proof -
  have us: "us = take i us @ us ! i # drop (Suc i) us"
    using assms(2) by (simp add: id_take_nth_drop)
  with assms(1) have "sorted_wrt pl_less (take i us @ us ! i # drop (Suc i) us)" by simp
  then have before: "\<forall>l\<in>set (take i us). pl_less l (us ! i)"
    and after: "\<forall>l\<in>set (drop (Suc i) us). pl_less (us ! i) l"
    unfolding sorted_wrt_append by auto
  have "price l \<noteq> Fin k" if "l \<in> set (erase_at i us)" for l
  proof -
    from that before after have "pl_less l (us ! i) \<or> pl_less (us ! i) l"
      by (auto simp: erase_at_def)
    with assms(3) show ?thesis
      by (cases "price l") (auto simp: pl_less_def split: if_splits)
  qed
  then show ?thesis by blast
qed

lemma find_inserted:
  "\<forall>l\<in>set us. price l \<noteq> Fin k \<Longrightarrow> price c = Fin k
   \<Longrightarrow> find (\<lambda>l. price l = Fin k) (set_insert pl_less c us) = Some c"
proof (induction us)
  case Nil
  then show ?case by simp
next
  case (Cons e es)
  from Cons.prems have e: "price e \<noteq> Fin k" by simp
  with Cons.prems(2) have "pl_less c e \<or> pl_less e c"
    by (cases "price e") (auto simp: pl_less_def)
  with Cons e show ?case by auto
qed

lemma delta_netAddition:
  assumes "sorted_wrt pl_less us" and "price c = Fin k"
  shows "delta_at (netAddition c us) (Fin k) = Some (netted (delta_at us (Fin k)) (psize c))"
proof (cases "set_find pl_less c us")
  case End
  from set_find_End_absent[OF assms End] have ab: "\<forall>l\<in>set us. price l \<noteq> Fin k" .
  then have fnd: "find (\<lambda>l. price l = Fin k) us = None" by (simp add: find_absent)
  from End find_inserted[OF ab assms(2)] show ?thesis
    by (simp add: netAddition_def delta_at_def netted_def fnd)
next
  case (Pos i)
  note f = set_find_Pos_found[OF assms(2) Pos]
  from erased_price_absent[OF assms(1)] f
  have ab: "\<forall>l\<in>set (erase_at i us). price l \<noteq> Fin k" by blast
  from f have fnd: "find (\<lambda>l. price l = Fin k) us = Some (us ! i)" by simp
  from Pos find_inserted[OF ab, of "c\<lparr>psize := dadd (psize (us ! i)) (psize c)\<rparr>"] assms(2)
  show ?thesis by (simp add: netAddition_def delta_at_def netted_def fnd)
qed

lemma delta_netRemoval:
  assumes "sorted_wrt pl_less us" and "price c = Fin k"
  shows "delta_at (netRemoval c us) (Fin k) = nonzero (netted (delta_at us (Fin k)) (psize c))"
proof (cases "set_find pl_less c us")
  case End
  from set_find_End_absent[OF assms End] have ab: "\<forall>l\<in>set us. price l \<noteq> Fin k" .
  then have fnd: "find (\<lambda>l. price l = Fin k) us = None" by (simp add: find_absent)
  from End find_inserted[OF ab assms(2)] show ?thesis
    by (simp add: netRemoval_def delta_at_def netted_def nonzero_def isZeroPriceLevel_def fnd)
next
  case (Pos i)
  note f = set_find_Pos_found[OF assms(2) Pos]
  from erased_price_absent[OF assms(1)] f
  have ab: "\<forall>l\<in>set (erase_at i us). price l \<noteq> Fin k" by blast
  from f have fnd: "find (\<lambda>l. price l = Fin k) us = Some (us ! i)" by simp
  from Pos find_inserted[OF ab, of "c\<lparr>psize := dadd (psize (us ! i)) (psize c)\<rparr>"] assms(2) ab
  show ?thesis
    by (simp add: netRemoval_def delta_at_def netted_def nonzero_def isZeroPriceLevel_def
        Let_def find_absent fnd)
qed

section \<open>The lists and sets of one cycle\<close>

lemma disjoint_prices_snoc_left:
  "disjoint_prices (xs @ [x]) ys = (disjoint_prices xs ys \<and> (\<forall>y\<in>set ys. \<not> same_real_price x y))"
  by (auto simp: disjoint_prices_def)

lemma disjoint_prices_snoc_right:
  "disjoint_prices xs (ys @ [y]) = (disjoint_prices xs ys \<and> (\<forall>x\<in>set xs. \<not> same_real_price x y))"
  by (auto simp: disjoint_prices_def)

lemma fresh_against_lists:
  assumes "lists_from c S" and "\<forall>s\<in>S. \<not> same_real_price s u" and "price x = price u"
    and "y \<in> set (additionsList c) \<union> set (removalsList c) \<union> set (updatesList c)"
  shows "\<not> same_real_price x y" and "\<not> same_real_price y x"
proof -
  from assms(1,4) obtain s where s: "s \<in> S" "price y = price s"
    unfolding lists_from_def by blast
  with assms(2) have "\<not> same_real_price s u" by blast
  with s(2) assms(3) show "\<not> same_real_price y x" by (simp add: same_real_price_def)
  then show "\<not> same_real_price x y" by (simp add: same_real_price_sym)
qed

lemma generate_step:
  assumes eq: "equiv_same_real_price lt"
    and lfrom: "lists_from c S" and dis: "lists_disjoint c"
    and fresh: "\<forall>s\<in>S. \<not> same_real_price s u"
  shows "lists_from (generatePriceLevelChanges lt storage c u) (insert u S)
         \<and> lists_disjoint (generatePriceLevelChanges lt storage c u)"
proof (cases "set_find lt u storage")
  case End
  then have g: "generatePriceLevelChanges lt storage c u = c\<lparr>additionsList := additionsList c @ [u]\<rparr>"
    by (simp add: generatePriceLevelChanges_def)
  have "lists_from (c\<lparr>additionsList := additionsList c @ [u]\<rparr>) (insert u S)"
    using lfrom unfolding lists_from_def by auto
  moreover have "lists_disjoint (c\<lparr>additionsList := additionsList c @ [u]\<rparr>)"
    using dis fresh_against_lists[OF lfrom fresh, of u]
    unfolding lists_disjoint_def one_list_per_price_def
    by (simp add: disjoint_prices_snoc_left)
  ultimately show ?thesis using g by simp
next
  case (Pos i)
  from set_find_Pos[OF Pos] eq have p: "price (storage ! i) = price u"
    unfolding equiv_same_real_price_def by blast
  define found where "found = storage ! i"
  define new where "new = found\<lparr>psize := dadd (psize found) (psize u), ptime := ptime u\<rparr>"
  have pf: "price found = price u" and pn: "price new = price u"
    using p by (simp_all add: found_def new_def)
  show ?thesis
  proof (cases "isZeroPriceLevel new")
    case True
    then have g: "generatePriceLevelChanges lt storage c u = c\<lparr>removalsList := removalsList c @ [found]\<rparr>"
      using Pos by (simp add: generatePriceLevelChanges_def Let_def found_def new_def)
    have "lists_from (c\<lparr>removalsList := removalsList c @ [found]\<rparr>) (insert u S)"
      using lfrom pf unfolding lists_from_def by auto
    moreover have "lists_disjoint (c\<lparr>removalsList := removalsList c @ [found]\<rparr>)"
      using dis fresh_against_lists[OF lfrom fresh pf]
      unfolding lists_disjoint_def one_list_per_price_def
      by (simp add: disjoint_prices_snoc_right)
    ultimately show ?thesis using g by simp
  next
    case False
    then have g: "generatePriceLevelChanges lt storage c u = c\<lparr>updatesList := updatesList c @ [new]\<rparr>"
      using Pos by (simp add: generatePriceLevelChanges_def Let_def found_def new_def)
    have "lists_from (c\<lparr>updatesList := updatesList c @ [new]\<rparr>) (insert u S)"
      using lfrom pn unfolding lists_from_def by auto
    moreover have "lists_disjoint (c\<lparr>updatesList := updatesList c @ [new]\<rparr>)"
      using dis fresh_against_lists[OF lfrom fresh pn]
      unfolding lists_disjoint_def one_list_per_price_def
      by (simp add: disjoint_prices_snoc_right disjoint_prices_snoc_left)
    ultimately show ?thesis using g by simp
  qed
qed

lemma generate_fold:
  assumes eq: "equiv_same_real_price lt"
  shows "sorted_wrt (\<lambda>a b. \<not> same_real_price a b) us \<Longrightarrow> lists_from c S \<Longrightarrow> lists_disjoint c
         \<Longrightarrow> \<forall>s\<in>S. \<forall>u\<in>set us. \<not> same_real_price s u
         \<Longrightarrow> lists_disjoint (foldl (generatePriceLevelChanges lt storage) c us)"
proof (induction us arbitrary: c S)
  case Nil
  then show ?case by simp
next
  case (Cons u us)
  from Cons.prems have fresh: "\<forall>s\<in>S. \<not> same_real_price s u" by simp
  note step = generate_step[OF eq Cons.prems(2,3) fresh, of storage]
  have "\<forall>s\<in>insert u S. \<forall>v\<in>set us. \<not> same_real_price s v"
    using Cons.prems(1,4) by auto
  with Cons.IH[of "generatePriceLevelChanges lt storage c u" "insert u S"] step Cons.prems(1)
  show ?case by simp
qed

lemma generated_lists_disjoint:
  assumes "equiv_same_real_price lt" and "sorted_wrt (\<lambda>a b. \<not> same_real_price a b) us"
  shows "lists_disjoint (foldl (generatePriceLevelChanges lt storage)
            \<lparr>additionsList = [], removalsList = [], updatesList = []\<rparr> us)"
  by (rule generate_fold[OF assms, of _ "{}"])
     (simp_all add: lists_from_def lists_disjoint_def one_list_per_price_def disjoint_prices_def)

lemma removal_uncapped:
  assumes "processSideRemoval lt r 0 s = Inr s'"
  shows "sets_grow s s' {} {r} {}"
proof (cases "storageSide s = []")
  case True
  with assms show ?thesis by (auto simp: processSideRemoval_def sets_grow_def)
next
  case False
  with assms obtain st where "s' = s\<lparr>removalsSet := set_insert lt r (removalsSet s),
      storageSide := st, lastElementIter := End\<rparr>"
    by (auto simp: processSideRemoval_def Let_def dest!: bindE_Inr)
  then show ?thesis using set_set_insert[of lt r "removalsSet s"] by (auto simp: sets_grow_def)
qed

lemma addition_uncapped:
  assumes "processSideAddition lt a 0 s = Inr s'"
  shows "sets_grow s s' {a} {} {}"
  using assms set_set_insert[of lt a "additionsSet s"]
  by (auto simp: processSideAddition_def Let_def sets_grow_def)

lemma update_uncapped:
  assumes "processSideUpdate lt u 0 s = Inr s'"
  shows "sets_grow s s' {} {} {u}"
  using assms set_set_insert[of lt u "updatesSet s"]
  by (auto simp: processSideUpdate_def Let_def sets_grow_def)

lemma sets_grow_trans:
  "sets_grow s s1 A R U \<Longrightarrow> sets_grow s1 s2 A' R' U' \<Longrightarrow> sets_grow s s2 (A \<union> A') (R \<union> R') (U \<union> U')"
  unfolding sets_grow_def by blast

lemma sets_grow_refl: "sets_grow s s {} {} {}"
  by (simp add: sets_grow_def)

lemma fold_removals_uncapped:
  "foldE (\<lambda>r. processSideRemoval lt r 0) rs s = Inr s' \<Longrightarrow> sets_grow s s' {} (set rs) {}"
proof (induction rs arbitrary: s)
  case Nil
  then show ?case by (simp add: sets_grow_refl)
next
  case (Cons r rs)
  from Cons.prems obtain s1 where s1: "processSideRemoval lt r 0 s = Inr s1"
      "foldE (\<lambda>r. processSideRemoval lt r 0) rs s1 = Inr s'"
    by (auto dest!: bindE_Inr)
  from sets_grow_trans[OF removal_uncapped[OF s1(1)] Cons.IH[OF s1(2)]]
  show ?case by simp
qed

lemma fold_additions_uncapped:
  "foldE (\<lambda>a. processSideAddition lt a 0) as s = Inr s' \<Longrightarrow> sets_grow s s' (set as) {} {}"
proof (induction as arbitrary: s)
  case Nil
  then show ?case by (simp add: sets_grow_refl)
next
  case (Cons a as)
  from Cons.prems obtain s1 where s1: "processSideAddition lt a 0 s = Inr s1"
      "foldE (\<lambda>a. processSideAddition lt a 0) as s1 = Inr s'"
    by (auto dest!: bindE_Inr)
  from sets_grow_trans[OF addition_uncapped[OF s1(1)] Cons.IH[OF s1(2)]]
  show ?case by simp
qed

lemma fold_updates_uncapped:
  "foldE (\<lambda>u. processSideUpdate lt u 0) us s = Inr s' \<Longrightarrow> sets_grow s s' {} {} (set us)"
proof (induction us arbitrary: s)
  case Nil
  then show ?case by (simp add: sets_grow_refl)
next
  case (Cons u us)
  from Cons.prems obtain s1 where s1: "processSideUpdate lt u 0 s = Inr s1"
      "foldE (\<lambda>u. processSideUpdate lt u 0) us s1 = Inr s'"
    by (auto dest!: bindE_Inr)
  from sets_grow_trans[OF update_uncapped[OF s1(1)] Cons.IH[OF s1(2)]]
  show ?case by simp
qed

lemma applySide_uncapped:
  assumes "applySide lt 0 us storage cursor = Inr s"
  shows "side_within s (foldl (generatePriceLevelChanges lt storage)
            \<lparr>additionsList = [], removalsList = [], updatesList = []\<rparr> us)
         \<and> (cursor = End \<longrightarrow> lastElementIter s = End)"
proof -
  define c where "c = foldl (generatePriceLevelChanges lt storage)
            \<lparr>additionsList = [], removalsList = [], updatesList = []\<rparr> us"
  define s0 where "s0 = \<lparr>storageSide = storage, lastElementIter = cursor,
                additionsSet = [], removalsSet = [], updatesSet = []\<rparr>"
  from assms obtain s1 s2 where
    r: "foldE (\<lambda>r. processSideRemoval lt r 0) (removalsList c) s0 = Inr s1" and
    a: "foldE (\<lambda>a. processSideAddition lt a 0) (additionsList c) s1 = Inr s2" and
    u: "foldE (\<lambda>u. processSideUpdate lt u 0) (updatesList c) s2 = Inr s"
    unfolding applySide_def Let_def c_def[symmetric] s0_def[symmetric]
    by (auto dest!: bindE_Inr)
  from sets_grow_trans[OF sets_grow_trans[OF fold_removals_uncapped[OF r] fold_additions_uncapped[OF a]]
      fold_updates_uncapped[OF u]]
  have "sets_grow s0 s (set (additionsList c)) (set (removalsList c)) (set (updatesList c))"
    by simp
  then show ?thesis
    unfolding c_def[symmetric] by (simp add: sets_grow_def side_within_def s0_def)
qed

lemma generate_on_empty:
  "foldl (generatePriceLevelChanges lt []) c us = c\<lparr>additionsList := additionsList c @ us\<rparr>"
  by (induction us arbitrary: c) (simp_all add: generatePriceLevelChanges_def)

lemma addition_capped_empty:
  "0 < n \<Longrightarrow> storageSide s = [] \<Longrightarrow> lastElementIter s = End
   \<Longrightarrow> processSideAddition lt a n s = Inl DerefEnd"
  by (simp add: processSideAddition_def Let_def deref_def)

lemma applySide_capped_empty:
  assumes "0 < n" and "applySide lt n us [] End = Inr s"
  shows "s = \<lparr>storageSide = [], lastElementIter = End,
                additionsSet = [], removalsSet = [], updatesSet = []\<rparr>"
proof -
  from assms(2) have f: "foldE (\<lambda>a. processSideAddition lt a n) us
      \<lparr>storageSide = [], lastElementIter = End,
       additionsSet = [], removalsSet = [], updatesSet = []\<rparr> = Inr s"
    unfolding applySide_def generate_on_empty Let_def by (auto dest!: bindE_Inr)
  show ?thesis
  proof (cases us)
    case Nil
    with f show ?thesis by simp
  next
    case (Cons a as)
    with f assms(1) show ?thesis by (simp add: addition_capped_empty)
  qed
qed

lemma within_disjoint:
  "side_within s c \<Longrightarrow> lists_disjoint c
   \<Longrightarrow> one_list_per_price (additionsSet s) (updatesSet s) (removalsSet s)"
  unfolding side_within_def lists_disjoint_def one_list_per_price_def disjoint_prices_def
  by blast

lemma applySide_result:
  assumes eq: "equiv_same_real_price lt"
    and srt: "sorted_wrt (\<lambda>a b. \<not> same_real_price a b) us"
    and inv: "0 < n \<longrightarrow> storage = []"
    and res: "applySide lt n us storage End = Inr s"
  shows "one_list_per_price (additionsSet s) (updatesSet s) (removalsSet s)
         \<and> lastElementIter s = End \<and> (0 < n \<longrightarrow> storageSide s = [])"
proof (cases "n = 0")
  case True
  with res applySide_uncapped[of lt us storage End s]
    within_disjoint[OF _ generated_lists_disjoint[OF eq srt, of storage], of s]
  show ?thesis by simp
next
  case False
  with inv res applySide_capped_empty[of n lt us s]
  show ?thesis by (simp add: one_list_per_price_def disjoint_prices_def)
qed

lemma applyUpdates_result:
  assumes inv: "book_inv b"
    and sa: "sorted_wrt (\<lambda>a b. \<not> same_real_price a b) (asks upd)"
    and sb: "sorted_wrt (\<lambda>a b. \<not> same_real_price a b) (bids upd)"
    and res: "applyUpdates upd b = Inr (b', cs)"
  shows "book_inv b' \<and> changes_disjoint cs \<and> onIncrementalChange b' = onIncrementalChange b"
proof -
  from res obtain a d where
    a: "applySide ask_less (levelsNumber b) (asks upd) (book_asks b) (lastAsk b) = Inr a" and
    d: "applySide bid_less (levelsNumber b) (bids upd) (book_bids b) (lastBid b) = Inr d" and
    b': "b' = b\<lparr>book_asks := storageSide a, lastAsk := lastElementIter a,
            book_bids := storageSide d, lastBid := lastElementIter d\<rparr>" and
    cs: "cs = \<lparr>additions = \<lparr>asks = additionsSet a, bids = additionsSet d\<rparr>,
           updates = \<lparr>asks = updatesSet a, bids = updatesSet d\<rparr>,
           removals = \<lparr>asks = removalsSet a, bids = removalsSet d\<rparr>\<rparr>"
    unfolding applyUpdates_def by (auto dest!: bindE_Inr)
  from inv have i: "lastAsk b = End" "lastBid b = End"
      "0 < levelsNumber b \<longrightarrow> book_asks b = []" "0 < levelsNumber b \<longrightarrow> book_bids b = []"
    by (simp_all add: book_inv_def)
  note ra = applySide_result[OF ask_equiv sa i(3) a[unfolded i(1)]]
  note rd = applySide_result[OF bid_equiv sb i(4) d[unfolded i(2)]]
  from ra rd show ?thesis
    by (simp add: b' cs book_inv_def changes_disjoint_def)
qed

lemma convertToUpdates_result:
  assumes "convertToUpdates d b = Inr (b1, upd)"
  shows "sorted_wrt (\<lambda>a b. \<not> same_real_price a b) (asks upd)
         \<and> sorted_wrt (\<lambda>a b. \<not> same_real_price a b) (bids upd)
         \<and> (\<exists>led. b1 = b\<lparr>orderDataSnapshot := led\<rparr>)"
proof -
  define r where "r = foldl processOrder
                  (\<lparr>askUpdates = [], bidUpdates = []\<rparr>, orderDataSnapshot b) (records d)"
  have "updates_sorted (fst r)"
    unfolding r_def by (rule sorted_foldl_processOrder) (simp add: updates_sorted_def)
  then have s: "sorted_wrt pl_less (askUpdates (fst r))" "sorted_wrt pl_less (bidUpdates (fst r))"
    by (simp_all add: updates_sorted_def)
  have 1: "sorted_wrt (\<lambda>a b. \<not> same_real_price a b) (askUpdates (fst r))"
    by (rule sorted_wrt_mono_rel[OF _ s(1)]) (simp add: pl_less_not_same)
  have "sorted_wrt (\<lambda>a b. \<not> same_real_price b a) (bidUpdates (fst r))"
    by (rule sorted_wrt_mono_rel[OF _ s(2)]) (simp add: pl_less_not_same same_real_price_sym)
  then have 2: "sorted_wrt (\<lambda>a b. \<not> same_real_price a b) (rev (bidUpdates (fst r)))"
    by (simp add: sorted_wrt_rev)
  from assms have "b1 = b\<lparr>orderDataSnapshot := snd r\<rparr>"
      "upd = \<lparr>asks = askUpdates (fst r), bids = rev (bidUpdates (fst r))\<rparr>"
    unfolding convertToUpdates_def Let_def r_def[symmetric] by (auto split: if_splits)
  with 1 2 show ?thesis by auto
qed

lemma processSnapshotData_result:
  assumes inv: "book_inv b" and res: "processSnapshotData d n b = Inr (b', ns)"
  shows "book_inv b' \<and> (\<forall>cs. IncrementalChange cs \<in> set ns \<longrightarrow> changes_disjoint cs)"
proof -
  define b0 where "b0 = (if n \<noteq> 0
               then b\<lparr>book_asks := [], book_bids := [], orderDataSnapshot := Map.empty\<rparr>
               else b)"
  have inv0: "book_inv b0" using inv by (simp add: b0_def book_inv_def)
  show ?thesis
  proof (cases "records d = []")
    case True
    with res have "b' = b0" "\<forall>cs. IncrementalChange cs \<notin> set ns"
      unfolding processSnapshotData_def Let_def b0_def[symmetric] by (auto split: if_splits)
    with inv0 show ?thesis by simp
  next
    case False
    with res obtain b1 upd b2 cs where
      c: "convertToUpdates d b0 = Inr (b1, upd)" and
      a: "applyUpdates upd b1 = Inr (b2, cs)" and
      out: "b' = b2" "\<forall>cs'. IncrementalChange cs' \<in> set ns \<longrightarrow> cs' = cs"
      unfolding processSnapshotData_def Let_def b0_def[symmetric]
      by (auto dest!: bindE_Inr split: if_splits)
    note cr = convertToUpdates_result[OF c]
    then obtain led where "b1 = b0\<lparr>orderDataSnapshot := led\<rparr>" by blast
    with inv0 have "book_inv b1" by (simp add: book_inv_def)
    from applyUpdates_result[OF this _ _ a] cr out show ?thesis by blast
  qed
qed

lemma reachable_inv: "reachable b \<Longrightarrow> book_inv b"
proof (induction rule: reachable.induct)
  case (created n)
  show ?case by (simp add: create_def book_inv_def)
next
  case (processed b d n b' ns)
  then show ?case using processSnapshotData_result by blast
qed (simp_all add: book_inv_def)



lemma capped_cycle_emits_nothing:
  assumes "reachable b" and "0 < levelsNumber b"
    and res: "processSnapshotData d n b = Inr (b', ns)"
    and inc: "IncrementalChange cs \<in> set ns"
  shows "cs = \<lparr>additions = \<lparr>asks = [], bids = []\<rparr>,
               updates = \<lparr>asks = [], bids = []\<rparr>,
               removals = \<lparr>asks = [], bids = []\<rparr>\<rparr>"
proof -
  from assms(1) have inv: "book_inv b" by (rule reachable_inv)
  define b0 where "b0 = (if n \<noteq> 0
               then b\<lparr>book_asks := [], book_bids := [], orderDataSnapshot := Map.empty\<rparr>
               else b)"
  from inv assms(2) have s0: "book_asks b0 = []" "book_bids b0 = []" "lastAsk b0 = End"
      "lastBid b0 = End" "0 < levelsNumber b0"
    by (simp_all add: b0_def book_inv_def)
  have "records d \<noteq> []"
  proof
    assume "records d = []"
    with res have "\<forall>cs. IncrementalChange cs \<notin> set ns"
      unfolding processSnapshotData_def Let_def b0_def[symmetric] by (auto split: if_splits)
    with inc show False by blast
  qed
  with res obtain b1 upd b2 cs' where
      c: "convertToUpdates d b0 = Inr (b1, upd)" and
      a: "applyUpdates upd b1 = Inr (b2, cs')" and
      out: "\<forall>cs''. IncrementalChange cs'' \<in> set ns \<longrightarrow> cs'' = cs'"
      unfolding processSnapshotData_def Let_def b0_def[symmetric]
      by (auto dest!: bindE_Inr split: if_splits)
  from convertToUpdates_result[OF c] obtain led where "b1 = b0\<lparr>orderDataSnapshot := led\<rparr>"
    by blast
  with s0 have s1: "book_asks b1 = []" "book_bids b1 = []" "lastAsk b1 = End"
      "lastBid b1 = End" "0 < levelsNumber b1"
    by simp_all
  from a obtain x y where
    x: "applySide ask_less (levelsNumber b1) (asks upd) [] End = Inr x" and
    y: "applySide bid_less (levelsNumber b1) (bids upd) [] End = Inr y" and
    cs': "cs' = \<lparr>additions = \<lparr>asks = additionsSet x, bids = additionsSet y\<rparr>,
           updates = \<lparr>asks = updatesSet x, bids = updatesSet y\<rparr>,
           removals = \<lparr>asks = removalsSet x, bids = removalsSet y\<rparr>\<rparr>"
    unfolding applyUpdates_def s1 by (auto dest!: bindE_Inr)
  from applySide_capped_empty[OF s1(5) x] applySide_capped_empty[OF s1(5) y] cs'
  have "cs' = \<lparr>additions = \<lparr>asks = [], bids = []\<rparr>,
               updates = \<lparr>asks = [], bids = []\<rparr>,
               removals = \<lparr>asks = [], bids = []\<rparr>\<rparr>" by simp
  with out inc show ?thesis by blast
qed

lemma reachable_visible_range:
  "reachable b \<Longrightarrow> getAsks b = Inr (book_asks b) \<and> getBids b = Inr (book_bids b)"
  by (drule reachable_inv) (simp add: book_inv_def getAsks_def getBids_def visibleRange_def)

lemma reachable_capped_holds_nothing:
  "reachable b \<Longrightarrow> 0 < levelsNumber b \<Longrightarrow> book_asks b = [] \<and> book_bids b = []"
  by (drule reachable_inv) (simp add: book_inv_def)

lemma updatesOf_removal:
  "updatesOf (od_side f) (processOrderRemoval ord f u)
     = netRemoval \<lparr>price = od_price f, psize = dneg (od_size f), ptime = o_time ord\<rparr>
         (updatesOf (od_side f) u)"
  by (simp add: updatesOf_def processOrderRemoval_def)

lemma updatesOf_addition:
  "updatesOf (o_side ord) (processOrderAddition ord u)
     = netAddition \<lparr>price = o_price ord, psize = o_size ord, ptime = o_time ord\<rparr>
         (updatesOf (o_side ord) u)"
  by (simp add: updatesOf_def processOrderAddition_def)

lemma updatesOf_sorted: "updates_sorted u \<Longrightarrow> sorted_wrt pl_less (updatesOf sd u)"
  by (simp add: updatesOf_def updates_sorted_def)



section \<open>The side ordering\<close>

text \<open>
  Claim C1, as amended. Between two levels with real prices the ask comparator is the
  ascending order of the prices and the bid comparator the descending one. A level whose
  price is not-a-number sorts after every real-priced level on the ask side, and before
  every real-priced level on the bid side.
\<close>

theorem C1_side_ordering:
  "ask_less (a\<lparr>price := Fin x\<rparr>) (b\<lparr>price := Fin y\<rparr>) = (x < y)
   \<and> bid_less (a\<lparr>price := Fin x\<rparr>) (b\<lparr>price := Fin y\<rparr>) = (y < x)
   \<and> ask_less (a\<lparr>price := Fin x\<rparr>) (b\<lparr>price := NaN\<rparr>)
   \<and> \<not> ask_less (a\<lparr>price := NaN\<rparr>) (b\<lparr>price := Fin y\<rparr>)
   \<and> bid_less (a\<lparr>price := NaN\<rparr>) (b\<lparr>price := Fin y\<rparr>)
   \<and> \<not> bid_less (a\<lparr>price := Fin x\<rparr>) (b\<lparr>price := NaN\<rparr>)"
  by (simp add: ask_less_def bid_less_def)

text \<open>
  Claim C1 as stated fails on the bid side: the level without a price compares as better
  than the level at price 10, not as worse.
\<close>

theorem C1_bid_nan_sorts_first:
  "bid_less \<lparr>price = NaN, psize = NaN, ptime = 0\<rparr> \<lparr>price = Fin 10, psize = Fin 5, ptime = 0\<rparr>
   \<and> \<not> bid_less \<lparr>price = Fin 10, psize = Fin 5, ptime = 0\<rparr> \<lparr>price = NaN, psize = NaN, ptime = 0\<rparr>"
  by (simp add: bid_less_def)

section \<open>The delta translator on one event\<close>

text \<open>
  Claim C2 says that a known order which keeps its side and changes its price yields a
  removal delta at the old price and an addition delta at the new one. The code yields
  the addition only. Order 1 is a sell order of size 5 at price 10; the next batch moves
  it to price 11. The translator returns the single delta of size 5 at price 11, and
  the book then shows the order at both prices.
\<close>

theorem C2_no_removal_delta:
  "processAll [(order_batch [order_event 1 10 5 1 dxf_osd_sell 0], 0)] (create 0)
     = Inr ((create 0)\<lparr>book_asks := [level 10 5 1],
              orderDataSnapshot := [1 \<mapsto> toOrderData (order_event 1 10 5 1 dxf_osd_sell 0)]\<rparr>, [])
   \<and> convertToUpdates (order_batch [order_event 1 11 5 2 dxf_osd_sell 0])
       ((create 0)\<lparr>book_asks := [level 10 5 1],
          orderDataSnapshot := [1 \<mapsto> toOrderData (order_event 1 10 5 1 dxf_osd_sell 0)]\<rparr>)
     = Inr ((create 0)\<lparr>book_asks := [level 10 5 1],
              orderDataSnapshot := [1 \<mapsto> toOrderData (order_event 1 11 5 2 dxf_osd_sell 0)]\<rparr>,
            \<lparr>asks = [level 11 5 2], bids = []\<rparr>)
   \<and> processAll [(order_batch [order_event 1 10 5 1 dxf_osd_sell 0], 0),
                 (order_batch [order_event 1 11 5 2 dxf_osd_sell 0], 0)] (create 0)
     = Inr ((create 0)\<lparr>book_asks := [level 10 5 1, level 11 5 2],
              orderDataSnapshot := [1 \<mapsto> toOrderData (order_event 1 11 5 2 dxf_osd_sell 0)]\<rparr>, [])"
  by (simp add: eval_defs)

text \<open>
  Claim C8, as amended. An event for an order that is in the ledger, that is not a
  removal (its removal flag is unset and its size is neither zero nor not-a-number) and
  whose side differs from the ledger's side, is translated by the removal of the prior
  size at the prior side and price followed by the addition of the new size at the new
  side and price, also when the price is the same; the ledger entry is replaced by the
  event's data. Where the prior price is a real number, the size that the deltas of the
  prior side hold at it is decreased by the prior size, and the delta is dropped when
  the result is a zero level; where the new price is a real number, the size that the
  deltas of the new side hold at it is then increased by the new size.
\<close>

theorem C8_side_change:
  assumes "led (o_index ord) = Some found"
    and "\<not> isOrderRemoval ord"
    and "o_side ord \<noteq> od_side found"
  shows "processOrder (u, led) ord =
           (processOrderAddition ord (processOrderRemoval ord found u),
            led(od_index found \<mapsto> toOrderData ord))
         \<and> (updates_sorted u \<and> od_price found = Fin p \<longrightarrow>
              delta_at (updatesOf (od_side found) (processOrderRemoval ord found u)) (Fin p)
                = nonzero (netted (delta_at (updatesOf (od_side found) u) (Fin p))
                             (dneg (od_size found))))
         \<and> (updates_sorted u \<and> o_price ord = Fin q \<longrightarrow>
              delta_at (updatesOf (o_side ord)
                          (processOrderAddition ord (processOrderRemoval ord found u))) (Fin q)
                = Some (netted (delta_at (updatesOf (o_side ord)
                                            (processOrderRemoval ord found u)) (Fin q))
                          (o_size ord)))"
proof (intro conjI impI)
  show "processOrder (u, led) ord =
           (processOrderAddition ord (processOrderRemoval ord found u),
            led(od_index found \<mapsto> toOrderData ord))"
    using assms by (simp add: processOrder_def)
next
  assume a: "updates_sorted u \<and> od_price found = Fin p"
  then have "sorted_wrt pl_less (updatesOf (od_side found) u)" by (simp add: updatesOf_sorted)
  from delta_netRemoval[OF this, of _ p] a
  show "delta_at (updatesOf (od_side found) (processOrderRemoval ord found u)) (Fin p)
          = nonzero (netted (delta_at (updatesOf (od_side found) u) (Fin p))
                       (dneg (od_size found)))"
    by (simp add: updatesOf_removal)
next
  assume a: "updates_sorted u \<and> o_price ord = Fin q"
  then have "updates_sorted (processOrderRemoval ord found u)"
    by (simp add: sorted_processOrderRemoval)
  then have "sorted_wrt pl_less (updatesOf (o_side ord) (processOrderRemoval ord found u))"
    by (rule updatesOf_sorted)
  from delta_netAddition[OF this, of _ q] a
  show "delta_at (updatesOf (o_side ord)
                    (processOrderAddition ord (processOrderRemoval ord found u))) (Fin q)
          = Some (netted (delta_at (updatesOf (o_side ord)
                                      (processOrderRemoval ord found u)) (Fin q))
                    (o_size ord))"
    by (simp add: updatesOf_addition)
qed

text \<open>
  The scenario of the specification: order 1, a buy order of size 4 at price 10, becomes
  a sell order of the same size and price, in a batch that has already netted a delta of
  size 6 at the bid price 10. The bid delta at 10 becomes 2 and the ask delta at 10
  becomes 4.
\<close>

theorem C8_side_change_witness:
  "[1 \<mapsto> toOrderData (order_event 1 10 4 1 dxf_osd_buy 0)]
     (o_index (order_event 1 10 4 3 dxf_osd_sell 0))
     = Some (toOrderData (order_event 1 10 4 1 dxf_osd_buy 0))
   \<and> \<not> isOrderRemoval (order_event 1 10 4 3 dxf_osd_sell 0)
   \<and> o_side (order_event 1 10 4 3 dxf_osd_sell 0)
       \<noteq> od_side (toOrderData (order_event 1 10 4 1 dxf_osd_buy 0))
   \<and> updates_sorted \<lparr>askUpdates = [], bidUpdates = [level 10 6 2]\<rparr>
   \<and> processOrder
       (\<lparr>askUpdates = [], bidUpdates = [level 10 6 2]\<rparr>,
        [1 \<mapsto> toOrderData (order_event 1 10 4 1 dxf_osd_buy 0)])
       (order_event 1 10 4 3 dxf_osd_sell 0)
     = (\<lparr>askUpdates = [level 10 4 3], bidUpdates = [level 10 2 3]\<rparr>,
        [1 \<mapsto> toOrderData (order_event 1 10 4 3 dxf_osd_sell 0)])
   \<and> delta_at (updatesOf dxf_osd_buy
                 (processOrderRemoval (order_event 1 10 4 3 dxf_osd_sell 0)
                    (toOrderData (order_event 1 10 4 1 dxf_osd_buy 0))
                    \<lparr>askUpdates = [], bidUpdates = [level 10 6 2]\<rparr>)) (Fin 10)
     = Some (Fin 2)
   \<and> delta_at (updatesOf dxf_osd_sell
                 (processOrderAddition (order_event 1 10 4 3 dxf_osd_sell 0)
                    (processOrderRemoval (order_event 1 10 4 3 dxf_osd_sell 0)
                       (toOrderData (order_event 1 10 4 1 dxf_osd_buy 0))
                       \<lparr>askUpdates = [], bidUpdates = [level 10 6 2]\<rparr>))) (Fin 10)
     = Some (Fin 4)"
  using C8_side_change
    [of "[1 \<mapsto> toOrderData (order_event 1 10 4 1 dxf_osd_buy 0)]"
        "order_event 1 10 4 3 dxf_osd_sell 0"
        "toOrderData (order_event 1 10 4 1 dxf_osd_buy 0)"
        "\<lparr>askUpdates = [], bidUpdates = [level 10 6 2]\<rparr>" 10 10]
  by (simp add: eval_defs updates_sorted_def updatesOf_def delta_at_def netted_def nonzero_def)

text \<open>
  Claim C8 as stated fails for an event whose removal flag is unset and whose size is
  zero: it is a removal. Order 1 is a buy order of size 4 at price 10; the event has the
  sell side and size 0. Only the removal delta is produced, and the ledger entry is
  erased.
\<close>

theorem C8_zero_size_is_removal:
  "(o_event_flags (order_event 1 10 0 2 dxf_osd_sell 0) AND dxf_ef_remove_event) = 0
   \<and> processOrder
     (\<lparr>askUpdates = [], bidUpdates = []\<rparr>,
      [1 \<mapsto> toOrderData (order_event 1 10 4 1 dxf_osd_buy 0)])
     (order_event 1 10 0 2 dxf_osd_sell 0)
   = (\<lparr>askUpdates = [], bidUpdates = [level 10 (- 4) 2]\<rparr>, Map.empty)"
  by (simp add: eval_defs)

text \<open>
  Claim C9, as amended. The addition path selects the set of deltas by the side of the
  event, the removal path by the side the ledger holds for the order. An event whose
  side is undefined has its addition netted into the ask deltas, and an order whose
  ledger side is undefined has its removal netted into the ask deltas; the bid deltas
  are left as they are.
\<close>

theorem C9_undefined_side_is_ask:
  "askUpdates (processOrderAddition (ord\<lparr>o_side := dxf_osd_undefined\<rparr>) u)
     = netAddition \<lparr>price = o_price ord, psize = o_size ord, ptime = o_time ord\<rparr> (askUpdates u)
   \<and> bidUpdates (processOrderAddition (ord\<lparr>o_side := dxf_osd_undefined\<rparr>) u) = bidUpdates u
   \<and> askUpdates (processOrderRemoval ord (found\<lparr>od_side := dxf_osd_undefined\<rparr>) u)
     = netRemoval \<lparr>price = od_price found, psize = dneg (od_size found), ptime = o_time ord\<rparr>
         (askUpdates u)
   \<and> bidUpdates (processOrderRemoval ord (found\<lparr>od_side := dxf_osd_undefined\<rparr>) u)
     = bidUpdates u"
  by (simp add: processOrderAddition_def processOrderRemoval_def)

text \<open>
  Claim C9 as stated fails on the removal path: a removal event whose own side is
  undefined, for an order that the ledger holds as a buy order, is netted into the bid
  deltas.
\<close>

theorem C9_removal_follows_ledger_side:
  "processOrder
     (\<lparr>askUpdates = [], bidUpdates = []\<rparr>,
      [1 \<mapsto> toOrderData (order_event 1 10 5 1 dxf_osd_buy 0)])
     (order_event 1 10 5 2 dxf_osd_undefined 2)
   = (\<lparr>askUpdates = [], bidUpdates = [level 10 (- 5) 2]\<rparr>, Map.empty)"
  by (simp add: eval_defs)

section \<open>The level store and the cursor\<close>

text \<open>
  Claim C3 says that the cursor is put back on the stored level equal to the snapshotted
  value unless that value is the not-a-number level. The code tests
  \<^verbatim>\<open>!newLastPL.isValid()\<close>, and \<^verbatim>\<open>isValid\<close> is true for the not-a-number price: every
  snapshot with a real price sends the cursor to the end. With cap 1, the first
  addition to the empty store reads through the past-the-end cursor; and an update of
  the level the cursor is on leaves the cursor at the end.
\<close>

theorem C3_cursor_sent_to_end:
  "relocate lt (pl\<lparr>price := Fin x\<rparr>) storage = End
   \<and> processSideAddition ask_less (level 10 5 1) 1 (emptySide [] End) = Inl DerefEnd
   \<and> processSideUpdate ask_less (level 10 7 2) 1 (emptySide [level 10 5 1] (Pos 0))
     = Inr ((emptySide [level 10 7 2] End)\<lparr>updatesSet := [level 10 7 2]\<rparr>)"
  by (simp add: eval_defs)

text \<open>
  Claim C4 says that with a cap above zero the visible levels are the best ones, at most
  as many as the cap. With cap 1, two batches that add one level each have no defined
  result: the first addition already reads through the past-the-end cursor of the empty
  store.
\<close>

theorem C4_first_addition_faults:
  "processSnapshotData (order_batch [order_event 1 10 5 1 dxf_osd_sell 0]) 0 (create 1)
     = Inl DerefEnd
   \<and> processAll
       [(order_batch [order_event 1 10 5 1 dxf_osd_sell 0], 0),
        (order_batch [order_event 2 11 3 2 dxf_osd_sell 0], 0)]
       (create 1)
     = Inl DerefEnd"
  by (simp add: eval_defs)

section \<open>Whole cycles\<close>




text \<open>
  Claim C5 says that without a cap the visible book is the set of levels of non-zero net
  size. Order 1 is added with size 5 at price 10, amended to size 3 and then removed.
  The amendment adds 3 to the level instead of replacing the 5, so the removal leaves a
  level of size 5 in the visible book although the ledger holds no order.
\<close>

theorem C5_ghost_level:
  "processAll
     [(order_batch [order_event 1 10 5 1 dxf_osd_sell 0], 0),
      (order_batch [order_event 1 10 3 2 dxf_osd_sell 0], 0),
      (order_batch [order_event 1 10 3 3 dxf_osd_sell 2], 0)]
     (create 0)
     = Inr ((create 0)\<lparr>book_asks := [level 10 5 3]\<rparr>, [])
   \<and> getAsks ((create 0)\<lparr>book_asks := [level 10 5 3]\<rparr>) = Inr [level 10 5 3]
   \<and> orderDataSnapshot ((create 0)\<lparr>book_asks := [level 10 5 3]\<rparr>) = Map.empty"
  by (simp add: eval_defs)

text \<open>
  Claim C6 says that a batch whose deltas net to zero yields an empty change-set and
  leaves the book as it is. The second batch below removes order 1 (size 5 at price 10)
  and adds order 2 with the same size at the same price. The addition path keeps the
  netted delta of size zero, and the cycle reports an update of the level and changes
  its time.
\<close>

theorem C6_net_zero_batch_emits_update:
  "processAll
     [(order_batch [order_event 1 10 5 1 dxf_osd_sell 0], 0),
      (order_batch [order_event 1 10 5 2 dxf_osd_sell 2,
                    order_event 2 10 5 3 dxf_osd_sell 0], 0)]
     ((create 0)\<lparr>onIncrementalChange := True\<rparr>)
     = Inr ((create 0)\<lparr>onIncrementalChange := True,
              book_asks := [level 10 5 3],
              orderDataSnapshot := [2 \<mapsto> toOrderData (order_event 2 10 5 3 dxf_osd_sell 0)]\<rparr>,
            [IncrementalChange
               \<lparr>additions = \<lparr>asks = [level 10 5 1], bids = []\<rparr>,
                updates = \<lparr>asks = [], bids = []\<rparr>,
                removals = \<lparr>asks = [], bids = []\<rparr>\<rparr>,
             IncrementalChange
               \<lparr>additions = \<lparr>asks = [], bids = []\<rparr>,
                updates = \<lparr>asks = [level 10 5 3], bids = []\<rparr>,
                removals = \<lparr>asks = [], bids = []\<rparr>\<rparr>])"
  by (simp add: eval_defs fun_upd_twist)

text \<open>
  Claim C10. A batch without records and with a clear new-snapshot flag invokes no
  observer and leaves the state of the book as it is.
\<close>

theorem C10_empty_incremental_batch:
  "processSnapshotData \<lparr>event_type = t, records = []\<rparr> 0 b = Inr (b, [])"
  by (simp add: processSnapshotData_def)


end
